theory Spec2Isabelle
  imports Complex_Main "HOL-Library.Sublist" "HOL-Library.Multiset" "HOL-Library.Log_Nat"
begin

section \<open>Text primitives of the Python runtime\<close>

text \<open>
  A text is a \<^typ>\<open>string\<close>; a \<^typ>\<open>char\<close> stands for the code point of the same number,
  so the model covers texts whose code points are below 256. The character classes below are
  those of \<^verbatim>\<open>str.isspace\<close>, \<^verbatim>\<open>\s\<close>, \<^verbatim>\<open>\d\<close> and \<^verbatim>\<open>str.lower\<close> on that range.
\<close>

definition is_space :: "char \<Rightarrow> bool" where
  "is_space c = (of_char c \<in> {9, 10, 11, 12, 13, 28, 29, 30, 31, 32, 133, 160 :: nat})"

definition is_digit :: "char \<Rightarrow> bool" where
  "is_digit c = (48 \<le> (of_char c :: nat) \<and> (of_char c :: nat) \<le> 57)"

definition is_alpha :: "char \<Rightarrow> bool" where
  \<comment> \<open>\<^verbatim>\<open>[A-Za-z]\<close>\<close>
  "is_alpha c = (let n = (of_char c :: nat) in (65 \<le> n \<and> n \<le> 90) \<or> (97 \<le> n \<and> n \<le> 122))"

definition lower_char :: "char \<Rightarrow> char" where
  "lower_char c =
     (let n = (of_char c :: nat)
      in if (65 \<le> n \<and> n \<le> 90) \<or> (192 \<le> n \<and> n \<le> 222 \<and> n \<noteq> 215)
         then char_of (n + 32) else c)"

definition py_lower :: "string \<Rightarrow> string" where
  \<comment> \<open>\<^verbatim>\<open>s.lower()\<close>\<close>
  "py_lower s = map lower_char s"

text \<open>
  \<^verbatim>\<open>text.count(sub)\<close>: the number of non-overlapping occurrences, scanning from the left.
  The first argument of \<open>count_from\<close> is the number of characters still covered by the
  occurrence found last. The empty string occurs \<open>len(text) + 1\<close> times.
\<close>

fun count_from :: "nat \<Rightarrow> string \<Rightarrow> string \<Rightarrow> nat" where
  "count_from k sub [] = 0"
| "count_from (Suc k) sub (c # cs) = count_from k sub cs"
| "count_from 0 sub (c # cs) =
     (if prefix sub (c # cs) then Suc (count_from (length sub - 1) sub cs)
      else count_from 0 sub cs)"

definition py_count :: "string \<Rightarrow> string \<Rightarrow> nat" where
  "py_count text sub = (if sub = [] then length text + 1 else count_from 0 sub text)"

definition digit_val :: "char \<Rightarrow> nat" where
  "digit_val c = of_char c - 48"

definition py_int :: "string \<Rightarrow> nat" where
  \<comment> \<open>\<^verbatim>\<open>int(s)\<close> on a string of decimal digits; Python's integers are unbounded\<close>
  "py_int s = foldl (\<lambda>n c. 10 * n + digit_val c) 0 s"

section \<open>Regular expressions with backtracking\<close>

text \<open>
  The patterns of the source are values of \<open>rx\<close>. A matcher state is the list of groups
  captured so far and the text still to be read; \<open>rmatch\<close> returns every way to match at
  the start of the text, in the order in which a backtracking matcher tries them (the greedy
  choice first), so the head of the list is the match that \<^verbatim>\<open>re\<close> reports.
\<close>

datatype rx =
    Sym "char \<Rightarrow> bool"
  | Eps
  | Seq rx rx
  | Alt rx rx
  | Star rx
  | Grp rx

type_synonym mstate = "string list \<times> string"

fun star :: "(mstate \<Rightarrow> mstate list) \<Rightarrow> nat \<Rightarrow> mstate \<Rightarrow> mstate list" where
  "star f 0 st = [st]"
| "star f (Suc n) st =
     concat (map (star f n) (filter (\<lambda>st'. length (snd st') < length (snd st)) (f st))) @ [st]"

lemma star_cong [fundef_cong]:
  "n = m \<Longrightarrow> st = st' \<Longrightarrow> (\<And>x. f x = g x) \<Longrightarrow> star f n st = star g m st'"
proof -
  assume "n = m" "st = st'" and fg: "\<And>x. f x = g x"
  have "f = g" using fg by (rule ext)
  with \<open>n = m\<close> \<open>st = st'\<close> show ?thesis by simp
qed

fun rmatch :: "rx \<Rightarrow> mstate \<Rightarrow> mstate list" where
  "rmatch (Sym p) (gs, s) = (case s of [] \<Rightarrow> [] | c # t \<Rightarrow> if p c then [(gs, t)] else [])"
| "rmatch Eps st = [st]"
| "rmatch (Seq a b) st = concat (map (rmatch b) (rmatch a st))"
| "rmatch (Alt a b) st = rmatch a st @ rmatch b st"
| "rmatch (Star a) st = star (rmatch a) (length (snd st)) st"
| "rmatch (Grp a) (gs, s) =
     map (\<lambda>(gs', t). (gs' @ [take (length s - length t) s], t)) (rmatch a (gs, s))"

abbreviation Plus :: "rx \<Rightarrow> rx" where
  "Plus r \<equiv> Seq r (Star r)"

abbreviation Opt :: "rx \<Rightarrow> rx" where
  "Opt r \<equiv> Alt r Eps"

text \<open>
  \<^verbatim>\<open>re.search\<close>: the leftmost position with a match, and there the first match; the
  result is the matched text, the groups, and the text after the match.
\<close>

fun re_search :: "rx \<Rightarrow> string \<Rightarrow> (string \<times> string list \<times> string) option" where
  "re_search r [] =
     (case rmatch r ([], []) of [] \<Rightarrow> None | (gs, t) # _ \<Rightarrow> Some ([], gs, t))"
| "re_search r (c # s) =
     (case rmatch r ([], c # s) of
        [] \<Rightarrow> re_search r s
      | (gs, t) # _ \<Rightarrow> Some (take (length (c # s) - length t) (c # s), gs, t))"

text \<open>Bounded repetition, literal characters, and literals under \<^verbatim>\<open>re.IGNORECASE\<close>.\<close>

primrec Times :: "nat \<Rightarrow> rx \<Rightarrow> rx" where
  "Times 0 r = Eps"
| "Times (Suc n) r = Seq r (Times n r)"

definition AtLeast :: "nat \<Rightarrow> rx \<Rightarrow> rx" where
  "AtLeast n r = Seq (Times n r) (Star r)"

definition Chr :: "char \<Rightarrow> rx" where
  "Chr x = Sym (\<lambda>c. c = x)"

definition IChr :: "char \<Rightarrow> rx" where
  "IChr x = Sym (\<lambda>c. lower_char c = lower_char x)"

primrec ILit :: "string \<Rightarrow> rx" where
  "ILit [] = Eps"
| "ILit (x # xs) = Seq (IChr x) (ILit xs)"


text \<open>The patterns without a capturing group.\<close>

primrec nogrp :: "rx \<Rightarrow> bool" where
  "nogrp (Sym p) = True"
| "nogrp Eps = True"
| "nogrp (Seq a b) = (nogrp a \<and> nogrp b)"
| "nogrp (Alt a b) = (nogrp a \<and> nogrp b)"
| "nogrp (Star a) = nogrp a"
| "nogrp (Grp a) = False"

text \<open>
  \<^verbatim>\<open>re.findall\<close>: the matches from left to right, each search starting where the match
  before it ended. The counter is the number of characters still covered by the match found
  last. Each entry is the matched text with its groups; \<open>group i\<close> is \<^verbatim>\<open>m.group(i)\<close>
  for \<open>i \<ge> 1\<close>, the empty string for a group that did not take part. No pattern of the
  source matches the empty string, so a search after an empty match does not occur.
\<close>

fun findall_from :: "rx \<Rightarrow> nat \<Rightarrow> string \<Rightarrow> (string \<times> string list) list" where
  "findall_from r k [] =
     (if k = 0 then (case rmatch r ([], []) of [] \<Rightarrow> [] | (gs, t) # _ \<Rightarrow> [([], gs)]) else [])"
| "findall_from r (Suc k) (c # s) = findall_from r k s"
| "findall_from r 0 (c # s) =
     (case rmatch r ([], c # s) of
        [] \<Rightarrow> findall_from r 0 s
      | (gs, t) # _ \<Rightarrow>
          (let m = take (length (c # s) - length t) (c # s)
           in (m, gs) # findall_from r (length m - 1) s))"

definition findall :: "rx \<Rightarrow> string \<Rightarrow> (string \<times> string list) list" where
  "findall r text = findall_from r 0 text"

definition group :: "nat \<Rightarrow> string list \<Rightarrow> string" where
  "group i gs = (if 0 < i \<and> i \<le> length gs then gs ! (i - 1) else [])"

text \<open>\<^verbatim>\<open>re.sub(pattern, repl, text)\<close> with a constant replacement.\<close>

fun re_sub_from :: "rx \<Rightarrow> string \<Rightarrow> nat \<Rightarrow> string \<Rightarrow> string" where
  "re_sub_from r repl k [] = (if k = 0 \<and> rmatch r ([], []) \<noteq> [] then repl else [])"
| "re_sub_from r repl (Suc k) (c # s) = re_sub_from r repl k s"
| "re_sub_from r repl 0 (c # s) =
     (case rmatch r ([], c # s) of
        [] \<Rightarrow> c # re_sub_from r repl 0 s
      | (gs, t) # _ \<Rightarrow>
          (let n = length (c # s) - length t
           in if n = 0 then repl @ c # re_sub_from r repl 0 s
              else repl @ re_sub_from r repl (n - 1) s))"

definition re_sub :: "rx \<Rightarrow> string \<Rightarrow> string \<Rightarrow> string" where
  "re_sub r repl text = re_sub_from r repl 0 text"






section \<open>The similarity scorer\<close>

text \<open>
  \<^verbatim>\<open>int(re.search(r"\d+", str(years)).group(0))\<close> inside \<^verbatim>\<open>try\<close>, with 0 when the
  search finds nothing. The argument of the model is the text \<^verbatim>\<open>str(years)\<close>.
\<close>

definition parse_years :: "string \<Rightarrow> nat" where
  "parse_years years_str =
     (case re_search (Plus (Sym is_digit)) years_str of
        None \<Rightarrow> 0
      | Some (m, _, _) \<Rightarrow> py_int m)"

definition exp_score :: "nat \<Rightarrow> nat \<Rightarrow> real" where
  "exp_score candidate_years required_years =
     (if required_years = 0 \<or> candidate_years \<ge> required_years then 100
      else real candidate_years / real required_years * 100)"

definition skills_score :: "string \<Rightarrow> string list \<Rightarrow> real" where
  "skills_score resume_text jd_skills =
     (let total_occurrences = sum_list (map (\<lambda>s. min 3 (py_count (py_lower resume_text) s)) jd_skills);
          max_possible = 3 * length jd_skills
      in if max_possible \<noteq> 0 then real total_occurrences / real max_possible * 100 else 0)"

definition calculate_similarity_score ::
    "string \<Rightarrow> string \<Rightarrow> string list \<Rightarrow> string \<Rightarrow> string \<Rightarrow> real" where
  "calculate_similarity_score resume_text jd_text jd_key_skills resume_years jd_years =
     (let candidate_years = parse_years resume_years;
          required_years = parse_years jd_years;
          jd_skills = map py_lower jd_key_skills;
          skill_appearances = length (filter (\<lambda>s. py_count (py_lower resume_text) s > 0) jd_skills)
      in if length jd_skills > 0 \<and> skill_appearances = 0 then 0
         else
           let overall_score = 0.4 * exp_score candidate_years required_years
                               + 0.6 * skills_score resume_text jd_skills
           in min overall_score 100)"

fun resonant_loop :: "string \<Rightarrow> string list \<Rightarrow> nat \<Rightarrow> string option \<Rightarrow> string option" where
  "resonant_loop text [] max_count resonant_skill = resonant_skill"
| "resonant_loop text (skill # rest) max_count resonant_skill =
     (let count = py_count text skill
      in if count > max_count then resonant_loop text rest count (Some skill)
         else resonant_loop text rest max_count resonant_skill)"

definition get_resonant_skill :: "string \<Rightarrow> string list \<Rightarrow> string option" where
  "get_resonant_skill resume_text jd_key_skills =
     resonant_loop (py_lower resume_text) (map py_lower jd_key_skills) 0 None"

section \<open>Ranking\<close>

record match_result =
  file_name :: string
  score :: real
  category :: string
  resonant_skill :: "string option"

definition py_sorted_reverse :: "('a \<Rightarrow> real) \<Rightarrow> 'a list \<Rightarrow> 'a list" where
  \<comment> \<open>\<^verbatim>\<open>sorted(xs, key=f, reverse=True)\<close>: the list is reversed, sorted by a stable
      ascending sort, and reversed again\<close>
  "py_sorted_reverse f xs = rev (sort_key f (rev xs))"

definition rank_results :: "match_result list \<Rightarrow> match_result list" where
  "rank_results results = py_sorted_reverse score results"

section \<open>The email extractor\<close>

definition local_char :: "char \<Rightarrow> bool" where
  \<comment> \<open>\<^verbatim>\<open>[a-zA-Z0-9._%+-]\<close>\<close>
  "local_char c = (is_alpha c \<or> is_digit c \<or> c \<in> set ''._%+-'')"

definition domain_char :: "char \<Rightarrow> bool" where
  \<comment> \<open>\<^verbatim>\<open>[a-zA-Z0-9.-]\<close>\<close>
  "domain_char c = (is_alpha c \<or> is_digit c \<or> c \<in> set ''.-'')"

definition email_pattern :: rx where
  \<comment> \<open>\<^verbatim>\<open>(?:[a-zA-Z0-9._%+-]\s*)+@\s*(?:(?:[a-zA-Z0-9.-]\s*)+\.\s*[a-zA-Z]{2,})\<close>\<close>
  "email_pattern =
     Seq (Plus (Seq (Sym local_char) (Star (Sym is_space))))
    (Seq (Chr (CHR ''@''))
    (Seq (Star (Sym is_space))
    (Seq (Plus (Seq (Sym domain_char) (Star (Sym is_space))))
    (Seq (Chr (CHR ''.''))
    (Seq (Star (Sym is_space))
         (AtLeast 2 (Sym is_alpha)))))))"

definition extract_emails :: "string \<Rightarrow> string list" where
  "extract_emails text =
     (let matches = map fst (findall email_pattern text)
      in map (\<lambda>match. re_sub (Plus (Sym is_space)) [] match) matches)"

section \<open>The skill extractor\<close>








section \<open>The experience extractor\<close>

text \<open>
  A \<open>datetime\<close> is a naive date and time, counted in microseconds; \<open>timedelta_days\<close> is
  the \<^verbatim>\<open>days\<close> field of a difference of two of them.
\<close>

type_synonym datetime = int

definition timedelta_days :: "int \<Rightarrow> int" where
  "timedelta_days delta = delta div 86400000000"

datatype py_error = IndexError | ValueError

text \<open>
  A Python float is a binary double: a \<open>pyfloat\<close> is the exact value of a finite double,
  or an infinity. \<open>to_double x\<close> is the double nearest to the real \<open>x\<close>, a tie going to
  the even significand: \<open>binade x\<close> is the exponent \<open>e\<close> with \<open>2^e \<le> |x| < 2^(e+1)\<close>, the
  doubles of that binade are the multiples of \<open>2^(e-52)\<close> (of \<open>2^(-1074)\<close> below the normal
  range), and a result of magnitude \<open>2^1024\<close>, which is \<open>2^53\<close> multiples in the binade of
  \<open>2^1023\<close>, is an infinity.
\<close>

datatype pyfloat = NegInf | Finite real | PosInf

instantiation pyfloat :: linorder
begin

fun less_eq_pyfloat :: "pyfloat \<Rightarrow> pyfloat \<Rightarrow> bool" where
  "less_eq_pyfloat NegInf y = True"
| "less_eq_pyfloat x PosInf = True"
| "less_eq_pyfloat (Finite a) (Finite b) = (a \<le> b)"
| "less_eq_pyfloat x y = False"

definition less_pyfloat :: "pyfloat \<Rightarrow> pyfloat \<Rightarrow> bool" where
  "less_pyfloat x y = (x \<le> y \<and> \<not> y \<le> x)"

instance
proof
  fix x y z :: pyfloat
  show "(x < y) = (x \<le> y \<and> \<not> y \<le> x)" by (simp add: less_pyfloat_def)
  show "x \<le> x" by (cases x) simp_all
  show "x \<le> y \<Longrightarrow> y \<le> z \<Longrightarrow> x \<le> z" by (cases x; cases y; cases z) simp_all
  show "x \<le> y \<Longrightarrow> y \<le> x \<Longrightarrow> x = y" by (cases x; cases y) simp_all
  show "x \<le> y \<or> y \<le> x" by (cases x; cases y) auto
qed

end

definition round_half_even :: "real \<Rightarrow> int" where
  "round_half_even y =
     (let f = \<lfloor>y\<rfloor>; d = y - of_int f
      in if d < 1 / 2 then f else if 1 / 2 < d then f + 1
         else if even f then f else f + 1)"

definition binade :: "real \<Rightarrow> int" where
  "binade x =
     (if 1 \<le> \<bar>x\<bar> then int (floorlog 2 (nat \<lfloor>\<bar>x\<bar>\<rfloor>)) - 1
      else - int (floorlog 2 (nat (\<lceil>1 / \<bar>x\<bar>\<rceil> - 1))))"

definition to_double :: "real \<Rightarrow> pyfloat" where
  "to_double x =
     (if x = 0 then Finite 0
      else
        let e = max (binade x) (- 1022)
        in if 1024 \<le> e then (if 0 < x then PosInf else NegInf)
           else
             let ulp = 2 powi (e - 52);
                 m = round_half_even (x / ulp)
             in if e = 1023 \<and> 2 ^ 53 \<le> \<bar>m\<bar> then (if 0 < x then PosInf else NegInf)
                else Finite (of_int m * ulp))"

text \<open>
  \<open>py_float\<close> is \<^verbatim>\<open>float(s)\<close> on plain decimal numerals, the double nearest to the
  numeral, and raises (\<open>None\<close>) on every other text. \<open>py_round1 x\<close> is \<^verbatim>\<open>round(x, 1)\<close>:
  the exact value of the double is rounded to one decimal place, a tie going to the even
  digit, and the result is the double nearest to that decimal; an infinity is returned as
  it is. \<open>float_div a b\<close> is the division of two floats that are finite and exact.
\<close>

definition py_float :: "string \<Rightarrow> pyfloat option" where
  "py_float s =
     (let ip = takeWhile is_digit s; rest = dropWhile is_digit s
      in if ip = [] then None
         else (case rest of
                 [] \<Rightarrow> Some (to_double (real (py_int ip)))
               | c # fp \<Rightarrow>
                   if c = CHR ''.'' \<and> fp \<noteq> [] \<and> list_all is_digit fp
                   then Some (to_double (real (py_int ip) + real (py_int fp) / 10 ^ length fp))
                   else None))"

fun py_max :: "pyfloat list \<Rightarrow> pyfloat option" where
  \<comment> \<open>\<^verbatim>\<open>max(xs)\<close>, which raises on the empty list\<close>
  "py_max [] = None"
| "py_max (x # xs) = Some (fold max xs x)"

fun py_round1 :: "pyfloat \<Rightarrow> pyfloat" where
  "py_round1 (Finite x) = to_double (of_int (round_half_even (x * 10)) / 10)"
| "py_round1 x = x"

definition float_div :: "real \<Rightarrow> real \<Rightarrow> pyfloat" where
  "float_div a b = to_double (a / b)"

definition number_rx :: rx where
  \<comment> \<open>\<^verbatim>\<open>\d+(?:\.\d+)?\<close>\<close>
  "number_rx = Seq (Plus (Sym is_digit)) (Opt (Seq (Chr (CHR ''.'')) (Plus (Sym is_digit))))"

definition regex_explicit :: rx where
  \<comment> \<open>\<^verbatim>\<open>(\d+(?:\.\d+)?)\+?\s*(?:years?|yrs?)\s*(?:of\s*experience|exp)?\<close>, ignoring case\<close>
  "regex_explicit =
     Seq (Grp number_rx)
    (Seq (Opt (Chr (CHR ''+'')))
    (Seq (Star (Sym is_space))
    (Seq (Alt (Seq (ILit ''year'') (Opt (IChr (CHR ''s''))))
              (Seq (ILit ''yr'') (Opt (IChr (CHR ''s'')))))
    (Seq (Star (Sym is_space))
         (Opt (Alt (Seq (ILit ''of'') (Seq (Star (Sym is_space)) (ILit ''experience'')))
                   (ILit ''exp'')))))))"

definition month_year_rx :: rx where
  \<comment> \<open>\<^verbatim>\<open>[A-Za-z]{3,}\.?\s+\d{4}\<close>\<close>
  "month_year_rx =
     Seq (AtLeast 3 (Sym is_alpha))
    (Seq (Opt (Chr (CHR ''.'')))
    (Seq (Plus (Sym is_space))
         (Times 4 (Sym is_digit))))"

definition en_dash :: "char \<Rightarrow> bool" where
  \<comment> \<open>the en dash is the code point 8211, which no character of the model stands for\<close>
  "en_dash c = False"

definition regex_date :: rx where
  \<comment> \<open>\<^verbatim>\<open>([A-Za-z]{3,}\.?\s+\d{4})\s*(?:en-dash|-)\s*(Present|[A-Za-z]{3,}\.?\s+\d{4})\<close>,
      ignoring case\<close>
  "regex_date =
     Seq (Grp month_year_rx)
    (Seq (Star (Sym is_space))
    (Seq (Alt (Sym en_dash) (Chr (CHR ''-'')))
    (Seq (Star (Sym is_space))
         (Grp (Alt (ILit ''Present'') month_year_rx)))))"

definition explicit_matches :: "string \<Rightarrow> string list" where
  "explicit_matches text = map (\<lambda>(m, gs). group 1 gs) (findall regex_explicit text)"

definition date_matches :: "string \<Rightarrow> (string \<times> string) list" where
  "date_matches text = map (\<lambda>(m, gs). (group 1 gs, group 2 gs)) (findall regex_date text)"

text \<open>
  The first \<^verbatim>\<open>try\<close> block: every \<^verbatim>\<open>ValueError\<close> of \<^verbatim>\<open>float\<close> and \<^verbatim>\<open>max\<close> is
  caught and falls through (\<open>None\<close>) to the date ranges.
\<close>

definition explicit_tier :: "string list \<Rightarrow> pyfloat option" where
  "explicit_tier matches =
     (if matches \<noteq> [] then
        (if list_all (\<lambda>m. py_float m \<noteq> None) matches then
           (case py_max (map (\<lambda>m. the (py_float m)) matches) of
              None \<Rightarrow> None
            | Some m \<Rightarrow> Some (py_round1 m))
         else None)
      else None)"

text \<open>
  The loop over the date matches. \<open>parse\<close> is \<^verbatim>\<open>dateutil.parser.parse\<close>, a library
  outside the repository: it is a parameter, \<open>None\<close> when it raises, and \<open>now\<close> is the
  value of \<^verbatim>\<open>datetime.now()\<close>. A range with a bound that fails to parse is skipped.
\<close>

fun parse_intervals ::
    "(string \<Rightarrow> datetime option) \<Rightarrow> datetime \<Rightarrow> (string \<times> string) list
       \<Rightarrow> (datetime \<times> datetime) list" where
  "parse_intervals parse now [] = []"
| "parse_intervals parse now ((start_str, end_str) # rest) =
     (case parse start_str of
        None \<Rightarrow> parse_intervals parse now rest
      | Some start_date \<Rightarrow>
          (case (if sublist ''present'' (py_lower end_str) then Some now else parse end_str) of
             None \<Rightarrow> parse_intervals parse now rest
           | Some end_date \<Rightarrow> (start_date, end_date) # parse_intervals parse now rest))"

text \<open>The merge loop; \<^verbatim>\<open>merged_intervals[-1]\<close> raises on an empty list.\<close>

fun merge_loop ::
    "(datetime \<times> datetime) list \<Rightarrow> (datetime \<times> datetime) list
       \<Rightarrow> py_error + (datetime \<times> datetime) list" where
  "merge_loop merged_intervals [] = Inr merged_intervals"
| "merge_loop merged_intervals (current # rest) =
     (if merged_intervals = [] then Inl IndexError
      else
        let i = length merged_intervals - 1; last = merged_intervals ! i
        in if fst current \<le> snd last
           then merge_loop (merged_intervals[i := (fst last, max (snd last) (snd current))]) rest
           else merge_loop (merged_intervals @ [current]) rest)"

definition extract_years_experience ::
    "(string \<Rightarrow> datetime option) \<Rightarrow> datetime \<Rightarrow> string \<Rightarrow> py_error + pyfloat option" where
  "extract_years_experience parse now text =
     (case explicit_tier (explicit_matches text) of
        Some years \<Rightarrow> Inr (Some years)
      | None \<Rightarrow>
          (let intervals = parse_intervals parse now (date_matches text)
           in if intervals \<noteq> [] then
                (let intervals = sort_key fst intervals
                 in case intervals of
                      [] \<Rightarrow> Inl IndexError
                    | first # others \<Rightarrow>
                        (case merge_loop [first] others of
                           Inl e \<Rightarrow> Inl e
                         | Inr merged_intervals \<Rightarrow>
                             (let total_days = sum_list (map (\<lambda>(start, end). timedelta_days (end - start))
                                                 merged_intervals);
                                  total_years = float_div (real_of_int total_days) 365.25
                              in Inr (Some (py_round1 total_years)))))
              else Inr None))"

text \<open>
  The two-tier reference definition, following the words of the specification: the
  maximum of the matched numbers, or the day spans of the merged intervals. The numeric
  value of a matched numeral is the float that denotes it.
\<close>

definition decimal_value :: "string \<Rightarrow> real" where
  "decimal_value s =
     (let ip = takeWhile is_digit s; fp = drop (length ip + 1) s
      in real (py_int ip) + real (py_int fp) / 10 ^ length fp)"

definition numeric_value :: "string \<Rightarrow> pyfloat" where
  "numeric_value s = to_double (decimal_value s)"

definition parsed_ranges ::
    "(string \<Rightarrow> datetime option) \<Rightarrow> datetime \<Rightarrow> (string \<times> string) list
       \<Rightarrow> (datetime \<times> datetime) list" where
  "parsed_ranges parse now ranges =
     List.map_filter (\<lambda>(start_str, end_str).
        case (parse start_str,
              if sublist ''present'' (py_lower end_str) then Some now else parse end_str) of
          (Some a, Some b) \<Rightarrow> Some (a, b)
        | _ \<Rightarrow> None) ranges"

fun merge_running :: "datetime \<times> datetime \<Rightarrow> (datetime \<times> datetime) list \<Rightarrow> (datetime \<times> datetime) list" where
  "merge_running running [] = [running]"
| "merge_running running (interval # rest) =
     (if fst interval \<le> snd running
      then merge_running (fst running, max (snd running) (snd interval)) rest
      else running # merge_running interval rest)"

definition two_tier_reference ::
    "(string \<Rightarrow> datetime option) \<Rightarrow> datetime \<Rightarrow> string \<Rightarrow> pyfloat option" where
  "two_tier_reference parse now text =
     (let numbers = map numeric_value (explicit_matches text)
      in if numbers \<noteq> [] then Some (py_round1 (Max (set numbers)))
         else
           (case sort_key fst (parsed_ranges parse now (date_matches text)) of
              [] \<Rightarrow> None
            | first # others \<Rightarrow>
                Some (py_round1
                  (float_div
                     (real_of_int (\<Sum>(start, end) \<leftarrow> merge_running first others.
                                      timedelta_days (end - start))) 365.25))))"

text \<open>
  A stand-in for \<^verbatim>\<open>dateutil.parser.parse\<close> on texts of the form month name, optional
  period, year of four digits, used for the concrete inputs below: the day of
  the month is the day of the current date (at most the last day of the month), the time is
  midnight. Every other text is refused.
\<close>

definition is_leap :: "int \<Rightarrow> bool" where
  "is_leap y = (y mod 4 = 0 \<and> (y mod 100 \<noteq> 0 \<or> y mod 400 = 0))"

definition days_in_month :: "int \<Rightarrow> nat \<Rightarrow> int" where
  "days_in_month y m =
     (if m = 2 then (if is_leap y then 29 else 28)
      else if m \<in> {4, 6, 9, 11} then 30 else 31)"

definition to_ordinal :: "int \<Rightarrow> nat \<Rightarrow> int \<Rightarrow> int" where
  "to_ordinal y m d =
     (y - 1) * 365 + (y - 1) div 4 - (y - 1) div 100 + (y - 1) div 400
     + sum_list (map (days_in_month y) [1..<m]) + d"

definition midnight :: "int \<Rightarrow> nat \<Rightarrow> int \<Rightarrow> datetime" where
  "midnight y m d = to_ordinal y m d * 86400000000"

definition month_names :: "(string \<times> nat) list" where
  "month_names =
     [(''jan'', 1), (''january'', 1), (''feb'', 2), (''february'', 2), (''mar'', 3),
      (''march'', 3), (''apr'', 4), (''april'', 4), (''may'', 5), (''jun'', 6), (''june'', 6),
      (''jul'', 7), (''july'', 7), (''aug'', 8), (''august'', 8), (''sep'', 9), (''sept'', 9),
      (''september'', 9), (''oct'', 10), (''october'', 10), (''nov'', 11), (''november'', 11),
      (''dec'', 12), (''december'', 12)]"

definition parse_month_year :: "int \<Rightarrow> string \<Rightarrow> datetime option" where
  "parse_month_year default_day s =
     (let word = takeWhile is_alpha s;
          rest = dropWhile is_alpha s;
          rest = (case rest of [] \<Rightarrow> rest | c # r \<Rightarrow> if c = CHR ''.'' then r else rest);
          digits = dropWhile is_space rest
      in case map_of month_names (py_lower word) of
           None \<Rightarrow> None
         | Some m \<Rightarrow>
             if length digits = 4 \<and> list_all is_digit digits \<and> 0 < py_int digits
             then (let y = int (py_int digits)
                   in Some (midnight y m (min default_day (days_in_month y m))))
             else None)"

definition example_now :: datetime where
  \<comment> \<open>noon of 4 November 2026\<close>
  "example_now = midnight 2026 11 4 + 43200000000"

section \<open>Facts about the text primitives and the matcher\<close>

lemma count_from_pos_iff: "sub \<noteq> [] \<Longrightarrow> (0 < count_from 0 sub t) = sublist sub t"
  by (induction t) (auto simp: sublist_Cons_right)

lemma py_count_pos_iff: "(0 < py_count t sub) = sublist sub t"
  by (simp add: py_count_def count_from_pos_iff)

lemma star_nonempty: "star f n st \<noteq> []"
  by (cases n) simp_all

lemma star_Sym_hd:
  "length s \<le> n \<Longrightarrow> \<exists>rest. star (rmatch (Sym p)) n (gs, s) = (gs, dropWhile p s) # rest"
proof (induction n arbitrary: s)
  case 0
  then show ?case by simp
next
  case (Suc n)
  show ?case
  proof (cases s)
    case Nil
    then show ?thesis by simp
  next
    case (Cons c t)
    show ?thesis
    proof (cases "p c")
      case True
      from Suc.prems Cons have "length t \<le> n" by simp
      from Suc.IH [OF this] obtain rest where
        "star (rmatch (Sym p)) n (gs, t) = (gs, dropWhile p t) # rest" by blast
      with True Cons show ?thesis by simp
    next
      case False
      with Cons show ?thesis by simp
    qed
  qed
qed

lemma take_length_diff_dropWhile:
  "take (length s - length (dropWhile p s)) s = takeWhile p s"
  by (metis takeWhile_dropWhile_id append_eq_conv_conj length_append add_diff_cancel_right')


lemma star_preserves:
  assumes f: "\<And>st st'. st' \<in> set (f st) \<Longrightarrow> suffix (snd st') (snd st) \<and> (P \<longrightarrow> fst st' = fst st)"
  shows "st' \<in> set (star f n st) \<Longrightarrow> suffix (snd st') (snd st) \<and> (P \<longrightarrow> fst st' = fst st)"
proof (induction n arbitrary: st)
  case 0
  then show ?case by simp
next
  case (Suc n)
  from Suc.prems consider "st' = st"
    | st1 where "st1 \<in> set (f st)" "st' \<in> set (star f n st1)"
    by auto
  then show ?case
  proof cases
    case 1
    then show ?thesis by simp
  next
    case 2
    from f [OF 2(1)] Suc.IH [OF 2(2)] show ?thesis
      by (auto intro: suffix_order.trans)
  qed
qed

lemma rmatch_preserves:
  "(gs', t) \<in> set (rmatch r (gs, s)) \<Longrightarrow> suffix t s \<and> (nogrp r \<longrightarrow> gs' = gs)"
proof (induction r arbitrary: gs s gs' t)
  case (Sym p)
  then show ?case by (auto split: list.splits if_splits simp: suffix_Cons)
next
  case Eps
  then show ?case by simp
next
  case (Seq a b)
  from Seq.prems obtain g1 t1 where 1: "(g1, t1) \<in> set (rmatch a (gs, s))"
    and 2: "(gs', t) \<in> set (rmatch b (g1, t1))" by auto
  from Seq.IH(1) [OF 1] Seq.IH(2) [OF 2] show ?case
    by (auto intro: suffix_order.trans)
next
  case (Alt a b)
  then show ?case by auto
next
  case (Star a)
  have "suffix (snd (gs', t)) (snd (gs, s)) \<and> (nogrp a \<longrightarrow> fst (gs', t) = fst (gs, s))"
  proof (rule star_preserves [where f = "rmatch a" and n = "length s"])
    fix st st' :: mstate
    assume "st' \<in> set (rmatch a st)"
    then show "suffix (snd st') (snd st) \<and> (nogrp a \<longrightarrow> fst st' = fst st)"
      using Star.IH [of "fst st'" "snd st'" "fst st" "snd st"] by simp
  next
    show "(gs', t) \<in> set (star (rmatch a) (length s) (gs, s))"
      using Star.prems by simp
  qed
  then show ?case by simp
next
  case (Grp a)
  then show ?case by auto
qed



lemma suffix_take_diff: "suffix t s \<Longrightarrow> take (length s - length t) s @ t = s"
  by (auto simp: suffix_def)





lemma re_sub_from_spaces:
  "\<forall>c\<in>set (take k s). p c \<Longrightarrow>
   re_sub_from (Plus (Sym p)) [] k s = filter (\<lambda>c. \<not> p c) s"
proof (induction s arbitrary: k rule: length_induct)
  case (1 s)
  show ?case
  proof (cases s)
    case Nil
    then show ?thesis by simp
  next
    case (Cons c t)
    show ?thesis
    proof (cases k)
      case (Suc k')
      with 1 Cons show ?thesis by simp
    next
      case 0
      show ?thesis
      proof (cases "p c")
        case False
        have "re_sub_from (Plus (Sym p)) [] 0 t = filter (\<lambda>c. \<not> p c) t"
          using 1 Cons by simp
        with False Cons 0 show ?thesis by simp
      next
        case True
        obtain rest where r: "star (rmatch (Sym p)) (length t) ([], t) = ([], dropWhile p t) # rest"
          using star_Sym_hd [of t "length t" p "[]"] by auto
        have le: "length (dropWhile p t) \<le> length t" by (rule length_dropWhile_le)
        have n: "length t - length (dropWhile p t) = length (takeWhile p t)"
          by (metis add_diff_cancel_right' length_append takeWhile_dropWhile_id)
        have "\<forall>c\<in>set (take (length (takeWhile p t)) t). p c"
          by (metis take_length_diff_dropWhile n set_takeWhileD)
        then have ih: "re_sub_from (Plus (Sym p)) [] (length (takeWhile p t)) t = filter (\<lambda>c. \<not> p c) t"
          using 1 Cons by simp
        have "re_sub_from (Plus (Sym p)) [] 0 (c # t)
                = re_sub_from (Plus (Sym p)) [] (length (takeWhile p t)) t"
          using True r le n by (simp add: Suc_diff_le Let_def)
        with ih True Cons 0 show ?thesis by simp
      qed
    qed
  qed
qed

lemma re_sub_spaces: "re_sub (Plus (Sym p)) [] s = filter (\<lambda>c. \<not> p c) s"
  unfolding re_sub_def by (rule re_sub_from_spaces) simp

section \<open>The similarity scorer: range, gate and experience component\<close>

lemma exp_score_bounds: "0 \<le> exp_score c r \<and> exp_score c r \<le> 100"
  by (auto simp: exp_score_def divide_le_eq)

lemma capped_sum_le: "sum_list (map (\<lambda>s. min 3 (f s)) xs) \<le> 3 * length xs"
  by (induction xs) auto

lemma skills_score_bounds: "0 \<le> skills_score t xs \<and> skills_score t xs \<le> 100"
proof -
  let ?n = "sum_list (map (\<lambda>s. min 3 (py_count (py_lower t) s)) xs)"
  have "?n \<le> 3 * length xs" by (rule capped_sum_le)
  then have "real ?n \<le> real (3 * length xs)" by (rule of_nat_mono)
  then show ?thesis
    by (auto simp: skills_score_def Let_def divide_le_eq)
qed

text \<open>
  C1. For every resume text, job-description text, required-skill list and years inputs
  (given by their string forms, well-formed or not), the score returned by
  \<open>calculate_similarity_score\<close> lies between 0 and 100.
\<close>

theorem score_in_range:
  "0 \<le> calculate_similarity_score resume_text jd_text jd_key_skills resume_years jd_years \<and>
   calculate_similarity_score resume_text jd_text jd_key_skills resume_years jd_years \<le> 100"
proof -
  have e: "0 \<le> exp_score (parse_years resume_years) (parse_years jd_years)"
    using exp_score_bounds by blast
  have s: "0 \<le> skills_score resume_text (map py_lower jd_key_skills)"
    using skills_score_bounds by blast
  show ?thesis using e s
    by (simp add: calculate_similarity_score_def Let_def)
qed

theorem score_in_range_witness:
  "0 \<le> calculate_similarity_score ''Python and Go developer'' ''jd'' [''Python'', ''Rust''] ''abc'' ''-7.5'' \<and>
   calculate_similarity_score ''Python and Go developer'' ''jd'' [''Python'', ''Rust''] ''abc'' ''-7.5'' \<le> 100"
  by (rule score_in_range)

text \<open>
  C2. When the required-skill list is not empty and no required skill, lower-cased, is a
  substring of the lower-cased resume text, the score is exactly 0, whatever the
  experience values are.
\<close>

theorem zero_evidence_gate:
  assumes "jd_key_skills \<noteq> []"
    and "\<forall>s\<in>set jd_key_skills. \<not> sublist (py_lower s) (py_lower resume_text)"
  shows "calculate_similarity_score resume_text jd_text jd_key_skills resume_years jd_years = 0"
proof -
  have "filter (\<lambda>s. 0 < py_count (py_lower resume_text) s) (map py_lower jd_key_skills) = []"
    using assms(2) by (simp add: py_count_pos_iff filter_empty_conv)
  with assms(1) show ?thesis
    by (simp add: calculate_similarity_score_def Let_def)
qed

theorem zero_evidence_gate_witness:
  "calculate_similarity_score ''Java'' ''jd'' [''Go''] ''10'' ''0'' = 0"
proof -
  have a: "[''Go''] \<noteq> []" by simp
  have b: "\<forall>s\<in>set [''Go'']. \<not> sublist (py_lower s) (py_lower ''Java'')"
    by code_simp
  show ?thesis using zero_evidence_gate [OF a b] .
qed



section \<open>The resonant skill\<close>

lemma resonant_loop_keep:
  "\<forall>x\<in>set xs. py_count t x \<le> m \<Longrightarrow> resonant_loop t xs m r = r"
  by (induction xs arbitrary: m r) (auto simp: Let_def)

lemma resonant_loop_pick:
  "\<not> (\<forall>x\<in>set xs. py_count t x \<le> m) \<Longrightarrow>
   \<exists>i<length xs. resonant_loop t xs m r = Some (xs ! i) \<and> m < py_count t (xs ! i) \<and>
     (\<forall>j<length xs. py_count t (xs ! j) \<le> py_count t (xs ! i)) \<and>
     (\<forall>j<i. py_count t (xs ! j) < py_count t (xs ! i))"
proof (induction xs arbitrary: m r)
  case Nil
  then show ?case by simp
next
  case (Cons x xs)
  let ?c = "py_count t"
  show ?case
  proof (cases "m < ?c x")
    case True
    show ?thesis
    proof (cases "\<forall>y\<in>set xs. ?c y \<le> ?c x")
      case all: True
      then have "resonant_loop t xs (?c x) (Some x) = Some x" by (rule resonant_loop_keep)
      with True have res: "resonant_loop t (x # xs) m r = Some ((x # xs) ! 0)"
        by (simp add: Let_def)
      have "\<forall>j<length (x # xs). ?c ((x # xs) ! j) \<le> ?c ((x # xs) ! 0)"
        using all by (auto simp: nth_Cons split: nat.splits)
      with res True show ?thesis by (intro exI [of _ 0]) simp
    next
      case False
      from Cons.IH [OF False, of "Some x"] obtain i where i: "i < length xs"
        "resonant_loop t xs (?c x) (Some x) = Some (xs ! i)" "?c x < ?c (xs ! i)"
        "\<forall>j<length xs. ?c (xs ! j) \<le> ?c (xs ! i)" "\<forall>j<i. ?c (xs ! j) < ?c (xs ! i)"
        by blast
      from True i(2) have res: "resonant_loop t (x # xs) m r = Some ((x # xs) ! Suc i)"
        by (simp add: Let_def)
      have a: "\<forall>j<length (x # xs). ?c ((x # xs) ! j) \<le> ?c ((x # xs) ! Suc i)"
        using i(3,4) by (auto simp: nth_Cons split: nat.splits)
      have b: "\<forall>j<Suc i. ?c ((x # xs) ! j) < ?c ((x # xs) ! Suc i)"
        using i(3,5) by (auto simp: nth_Cons split: nat.splits)
      from True i(3) have "m < ?c ((x # xs) ! Suc i)" by simp
      with res a b i(1) show ?thesis by (intro exI [of _ "Suc i"]) simp
    qed
  next
    case False
    with Cons.prems have ne: "\<not> (\<forall>y\<in>set xs. ?c y \<le> m)" by auto
    from Cons.IH [OF ne, of r] obtain i where i: "i < length xs"
        "resonant_loop t xs m r = Some (xs ! i)" "m < ?c (xs ! i)"
        "\<forall>j<length xs. ?c (xs ! j) \<le> ?c (xs ! i)" "\<forall>j<i. ?c (xs ! j) < ?c (xs ! i)"
      by blast
    from False i(2) have res: "resonant_loop t (x # xs) m r = Some ((x # xs) ! Suc i)"
      by (simp add: Let_def)
    have a: "\<forall>j<length (x # xs). ?c ((x # xs) ! j) \<le> ?c ((x # xs) ! Suc i)"
      using i(3,4) False by (auto simp: nth_Cons split: nat.splits)
    have b: "\<forall>j<Suc i. ?c ((x # xs) ! j) < ?c ((x # xs) ! Suc i)"
      using i(3,5) False by (auto simp: nth_Cons split: nat.splits)
    from i(3) have "m < ?c ((x # xs) ! Suc i)" by simp
    with res a b i(1) show ?thesis by (intro exI [of _ "Suc i"]) simp
  qed
qed

text \<open>
  C7, as the claim states its example: for the required skills "Python" and "Go" and a
  resume text with "Python" five times and "Go" once, the resonant skill would be
  "Python". The function returns the lower-cased skill instead.
\<close>

theorem resonant_skill_counterexample:
  "get_resonant_skill ''Python, Python, Python, Python, Python and Go'' [''Python'', ''Go'']
     \<noteq> Some ''Python''"
  by code_simp

text \<open>
  C7, amended. For every resume text and required-skill list, \<open>get_resonant_skill\<close>
  counts the occurrences (uncapped) of each lower-cased required skill in the lower-cased
  resume text. When all counts are zero it returns none. Otherwise it returns the
  lower-cased form of the required skill with the highest count, the first such skill in
  the order of the list on ties. For the required skills "Python" and "Go" with "Python"
  five times and "Go" once in the text it returns "python".
\<close>

theorem resonant_skill_lowercased_argmax:
  "(let cnt = (\<lambda>s. py_count (py_lower resume_text) (py_lower s))
    in if \<forall>s\<in>set jd_key_skills. cnt s = 0
       then get_resonant_skill resume_text jd_key_skills = None
       else \<exists>i<length jd_key_skills.
              get_resonant_skill resume_text jd_key_skills = Some (py_lower (jd_key_skills ! i)) \<and>
              (\<forall>j<length jd_key_skills. cnt (jd_key_skills ! j) \<le> cnt (jd_key_skills ! i)) \<and>
              (\<forall>j<i. cnt (jd_key_skills ! j) < cnt (jd_key_skills ! i)))
   \<and> get_resonant_skill ''Python, Python, Python, Python, Python and Go'' [''Python'', ''Go'']
       = Some ''python''"
proof -
  let ?t = "py_lower resume_text"
  let ?xs = "map py_lower jd_key_skills"
  have ex: "get_resonant_skill ''Python, Python, Python, Python, Python and Go'' [''Python'', ''Go'']
       = Some ''python''"
    by code_simp
  show ?thesis
  proof (cases "\<forall>s\<in>set jd_key_skills. py_count ?t (py_lower s) = 0")
    case True
    then have "\<forall>x\<in>set ?xs. py_count ?t x \<le> 0" by simp
    then have "resonant_loop ?t ?xs 0 None = None" by (rule resonant_loop_keep)
    with True ex show ?thesis by (simp add: get_resonant_skill_def)
  next
    case False
    then have "\<not> (\<forall>x\<in>set ?xs. py_count ?t x \<le> 0)" by simp
    from resonant_loop_pick [OF this, of None] obtain i where i: "i < length ?xs"
      "resonant_loop ?t ?xs 0 None = Some (?xs ! i)"
      "\<forall>j<length ?xs. py_count ?t (?xs ! j) \<le> py_count ?t (?xs ! i)"
      "\<forall>j<i. py_count ?t (?xs ! j) < py_count ?t (?xs ! i)"
      by blast
    from i(1) have il: "i < length jd_key_skills" by simp
    have r: "get_resonant_skill resume_text jd_key_skills = Some (py_lower (jd_key_skills ! i))"
      using i(2) il by (simp add: get_resonant_skill_def)
    have a: "\<forall>j<length jd_key_skills.
        py_count ?t (py_lower (jd_key_skills ! j)) \<le> py_count ?t (py_lower (jd_key_skills ! i))"
      using i(3) il by simp
    have b: "\<forall>j<i. py_count ?t (py_lower (jd_key_skills ! j))
        < py_count ?t (py_lower (jd_key_skills ! i))"
      using i(4) il by simp
    from False ex r a b il show ?thesis
      unfolding Let_def by (simp only: if_False simp_thms) blast
  qed
qed

theorem resonant_skill_lowercased_argmax_witness:
  "get_resonant_skill ''go GO Rust'' [''Rust'', ''Go'', ''GO''] = Some ''go''"
proof -
  let ?cnt = "\<lambda>s. py_count (py_lower ''go GO Rust'') (py_lower s)"
  let ?xs = "[''Rust'', ''Go'', ''GO'']"
  have c: "?cnt ''Rust'' = 1" "?cnt ''Go'' = 2" "?cnt ''GO'' = 2"
    "py_lower ''Go'' = ''go''" "py_lower ''GO'' = ''go''"
    by code_simp+
  have n: "\<not> (\<forall>s\<in>set ?xs. ?cnt s = 0)"
    using c(1) by simp
  have "\<exists>i<length ?xs. get_resonant_skill ''go GO Rust'' ?xs = Some (py_lower (?xs ! i)) \<and>
          (\<forall>j<length ?xs. ?cnt (?xs ! j) \<le> ?cnt (?xs ! i)) \<and>
          (\<forall>j<i. ?cnt (?xs ! j) < ?cnt (?xs ! i))"
    using resonant_skill_lowercased_argmax [of "''go GO Rust''" ?xs] n
    unfolding Let_def by presburger
  then obtain i where i: "i < length ?xs"
    "get_resonant_skill ''go GO Rust'' ?xs = Some (py_lower (?xs ! i))"
    "\<forall>j<length ?xs. ?cnt (?xs ! j) \<le> ?cnt (?xs ! i)"
    by blast
  have "(1::nat) < length ?xs" by simp
  with i(3) have "?cnt (?xs ! 1) \<le> ?cnt (?xs ! i)" by blast
  then have m: "?cnt ''Go'' \<le> ?cnt (?xs ! i)" by simp
  from i(1) have "i = 0 \<or> i = 1 \<or> i = 2" by auto
  then show ?thesis
  proof (elim disjE)
    assume "i = 0"
    with m c(1,2) show ?thesis by simp
  next
    assume "i = 1"
    with i(2) c(4) show ?thesis by simp
  next
    assume "i = 2"
    with i(2) c(5) show ?thesis by simp
  qed
qed

section \<open>Ranking: a stable sort, descending by score\<close>

lemma py_sorted_reverse_stable:
  "filter (\<lambda>y. f y = k) (py_sorted_reverse f xs) = filter (\<lambda>y. f y = k) xs"
  by (simp add: py_sorted_reverse_def rev_filter [symmetric] sort_key_stable)

lemma py_sorted_reverse_descending:
  "sorted_wrt (\<lambda>a b. f a \<ge> f b) (py_sorted_reverse f xs)"
proof -
  have "sorted (map f (sort_key f (rev xs)))" by simp
  then have "sorted_wrt (\<lambda>a b. f a \<le> f b) (sort_key f (rev xs))"
    by (simp add: sorted_map)
  then show ?thesis
    by (simp add: py_sorted_reverse_def sorted_wrt_rev)
qed

text \<open>
  C9. For every finite sequence of match results, the ranking holds the same results,
  in descending order of score, and the results of any one score keep their relative input
  order. For the input scores 50, 80, 50 the output order is the second result, then the
  first, then the third.
\<close>

theorem ranking_stable_descending:
  "mset (rank_results results) = mset results
   \<and> sorted_wrt (\<lambda>a b. score a \<ge> score b) (rank_results results)
   \<and> (\<forall>k. filter (\<lambda>r. score r = k) (rank_results results) = filter (\<lambda>r. score r = k) results)
   \<and> map file_name (rank_results
        [\<lparr>file_name = ''idx0'', score = 50, category = ''Good'', resonant_skill = None\<rparr>,
         \<lparr>file_name = ''idx1'', score = 80, category = ''Better'', resonant_skill = None\<rparr>,
         \<lparr>file_name = ''idx2'', score = 50, category = ''Good'', resonant_skill = None\<rparr>])
       = [''idx1'', ''idx0'', ''idx2'']"
proof -
  have a: "mset (rank_results results) = mset results"
    by (simp add: rank_results_def py_sorted_reverse_def)
  have b: "sorted_wrt (\<lambda>a b. score a \<ge> score b) (rank_results results)"
    unfolding rank_results_def by (rule py_sorted_reverse_descending)
  have c: "\<forall>k. filter (\<lambda>r. score r = k) (rank_results results) = filter (\<lambda>r. score r = k) results"
    unfolding rank_results_def by (simp add: py_sorted_reverse_stable)
  have d: "map file_name (rank_results
        [\<lparr>file_name = ''idx0'', score = 50, category = ''Good'', resonant_skill = None\<rparr>,
         \<lparr>file_name = ''idx1'', score = 80, category = ''Better'', resonant_skill = None\<rparr>,
         \<lparr>file_name = ''idx2'', score = 50, category = ''Good'', resonant_skill = None\<rparr>])
       = [''idx1'', ''idx0'', ''idx2'']"
    by (simp add: rank_results_def py_sorted_reverse_def)
  from a b c d show ?thesis by blast
qed

theorem ranking_stable_descending_witness:
  "filter (\<lambda>r. score r = 50) (rank_results
        [\<lparr>file_name = ''a'', score = 50, category = ''Good'', resonant_skill = None\<rparr>,
         \<lparr>file_name = ''b'', score = 90, category = ''Best'', resonant_skill = None\<rparr>,
         \<lparr>file_name = ''c'', score = 50, category = ''Good'', resonant_skill = None\<rparr>])
   = [\<lparr>file_name = ''a'', score = 50, category = ''Good'', resonant_skill = None\<rparr>,
      \<lparr>file_name = ''c'', score = 50, category = ''Good'', resonant_skill = None\<rparr>]"
  using ranking_stable_descending
    [of "[\<lparr>file_name = ''a'', score = 50, category = ''Good'', resonant_skill = None\<rparr>,
         \<lparr>file_name = ''b'', score = 90, category = ''Best'', resonant_skill = None\<rparr>,
         \<lparr>file_name = ''c'', score = 50, category = ''Good'', resonant_skill = None\<rparr>]"]
  by simp

section \<open>The email extractor: one entry per match\<close>

lemma extract_emails_eq:
  "extract_emails txt = map (\<lambda>(m, gs). filter (\<lambda>c. \<not> is_space c) m) (findall email_pattern txt)"
  by (simp add: extract_emails_def re_sub_spaces case_prod_beta)

lemma extract_emails_twice: "extract_emails ''a@b.co a@b.co'' = [''a@b.co'', ''a@b.co'']"
  by code_simp

text \<open>
  C8, as the claim states it: the result would be a set of matches, with duplicates
  collapsed. An address that occurs twice in the text is returned twice.
\<close>

theorem extract_emails_counterexample:
  "\<not> distinct (extract_emails ''a@b.co a@b.co'')"
  by (simp add: extract_emails_twice)

text \<open>
  C8, amended. For every input text, \<open>extract_emails\<close> returns the list of the
  email-shaped matches in the order of the text, one entry for each match (an address
  that occurs twice is listed twice), with all whitespace removed from each match. A text
  with no email gives the empty list, which is a result and not an error. The text
  "john. doe @ example . com" gives the one entry "john.doe@example.com".
\<close>

theorem extract_emails_list_of_matches:
  "extract_emails txt = map (\<lambda>(m, gs). filter (\<lambda>c. \<not> is_space c) m) (findall email_pattern txt)
   \<and> length (extract_emails txt) = length (findall email_pattern txt)
   \<and> (\<forall>e\<in>set (extract_emails txt). \<forall>c\<in>set e. \<not> is_space c)
   \<and> extract_emails ''john. doe @ example . com'' = [''john.doe@example.com'']
   \<and> extract_emails ''no email here'' = []"
proof -
  have a: "extract_emails txt
      = map (\<lambda>(m, gs). filter (\<lambda>c. \<not> is_space c) m) (findall email_pattern txt)"
    by (rule extract_emails_eq)
  have b: "length (extract_emails txt) = length (findall email_pattern txt)"
    by (simp add: extract_emails_eq)
  have c: "\<forall>e\<in>set (extract_emails txt). \<forall>c\<in>set e. \<not> is_space c"
    by (auto simp: extract_emails_eq)
  have d: "extract_emails ''john. doe @ example . com'' = [''john.doe@example.com'']"
    by code_simp
  have e: "extract_emails ''no email here'' = []"
    by code_simp
  from a b c d e show ?thesis by blast
qed

theorem extract_emails_list_of_matches_witness:
  "extract_emails ''a@b.co a@b.co'' = [''a@b.co'', ''a@b.co'']"
proof -
  have f: "findall email_pattern ''a@b.co a@b.co'' = [(''a@b.co'', []), (''a@b.co'', [])]"
    by code_simp
  have s: "\<not> is_space CHR ''a''" "\<not> is_space CHR ''@''" "\<not> is_space CHR ''b''"
    "\<not> is_space CHR ''.''" "\<not> is_space CHR ''c''" "\<not> is_space CHR ''o''"
    by (simp_all add: is_space_def)
  from extract_emails_list_of_matches [of "''a@b.co a@b.co''"]
  have "extract_emails ''a@b.co a@b.co''
      = map (\<lambda>(m, gs). filter (\<lambda>c. \<not> is_space c) m) (findall email_pattern ''a@b.co a@b.co'')"
    by blast
  then show ?thesis by (simp add: f s)
qed

section \<open>The skill extractor: one span, from the first header to the end\<close>



















section \<open>The experience extractor: the two tiers\<close>

text \<open>What the pattern for explicit years captures, and the loops of the second tier.\<close>

text \<open>The exponent that \<open>to_double\<close> works with is the binary exponent of its argument.\<close>

lemma binade_bounds:
  assumes "x \<noteq> 0"
  shows "2 powi binade x \<le> \<bar>x\<bar> \<and> \<bar>x\<bar> < 2 powi (binade x + 1)"
proof (cases "1 \<le> \<bar>x\<bar>")
  case True
  define n where "n = nat \<lfloor>\<bar>x\<bar>\<rfloor>"
  define k where "k = floorlog 2 n"
  from True have n1: "0 < n" by (simp add: n_def)
  have b: "2 ^ (k - 1) \<le> n \<and> n < 2 ^ k"
    unfolding k_def by (rule floorlog_bounds [OF n1]) simp
  from b n1 have k1: "0 < k" by (cases k) auto
  have nx: "real n \<le> \<bar>x\<bar>" "\<bar>x\<bar> < real n + 1"
    using True by (simp_all add: n_def)
  from b have "real (2 ^ (k - 1)) \<le> real n" by (simp only: of_nat_le_iff)
  then have "(2::real) ^ (k - 1) \<le> real n" by simp
  with nx(1) have lo: "2 ^ (k - 1) \<le> \<bar>x\<bar>" by linarith
  from b have "n + 1 \<le> 2 ^ k" by simp
  then have "real (n + 1) \<le> real (2 ^ k)" by (simp only: of_nat_le_iff)
  then have "real n + 1 \<le> (2::real) ^ k" by simp
  with nx(2) have hi: "\<bar>x\<bar> < 2 ^ k" by linarith
  have e: "binade x = int k - 1"
    using True by (simp add: binade_def n_def k_def)
  have p1: "(2::real) powi (int k - 1) = 2 ^ (k - 1)"
    using k1 by (simp add: power_int_def nat_diff_distrib')
  have p2: "(2::real) powi (int k - 1 + 1) = 2 ^ k"
    by (simp add: power_int_def)
  from lo hi show ?thesis unfolding e p1 p2 by simp
next
  case False
  define y where "y = 1 / \<bar>x\<bar>"
  from assms False have y1: "1 < y" by (simp add: y_def)
  define n where "n = nat (\<lceil>y\<rceil> - 1)"
  define k where "k = floorlog 2 n"
  from y1 have c2: "2 \<le> \<lceil>y\<rceil>" by linarith
  then have n1: "0 < n" by (simp add: n_def)
  have b: "2 ^ (k - 1) \<le> n \<and> n < 2 ^ k"
    unfolding k_def by (rule floorlog_bounds [OF n1]) simp
  from b n1 have k1: "0 < k" by (cases k) auto
  have rn: "real n = of_int \<lceil>y\<rceil> - 1"
    using c2 by (simp add: n_def)
  have ny: "real n < y" "y \<le> real n + 1"
    unfolding rn by linarith+
  from b have "real (2 ^ (k - 1)) \<le> real n" by (simp only: of_nat_le_iff)
  then have "(2::real) ^ (k - 1) \<le> real n" by simp
  with ny(1) have lo: "2 ^ (k - 1) < y" by linarith
  from b have "n + 1 \<le> 2 ^ k" by simp
  then have "real (n + 1) \<le> real (2 ^ k)" by (simp only: of_nat_le_iff)
  then have "real n + 1 \<le> (2::real) ^ k" by simp
  with ny(2) have hi: "y \<le> 2 ^ k" by linarith
  have xpos: "0 < \<bar>x\<bar>" using assms by simp
  from hi have a: "1 / 2 ^ k \<le> \<bar>x\<bar>"
    unfolding y_def using xpos by (simp add: field_simps)
  from lo have c: "\<bar>x\<bar> < 1 / 2 ^ (k - 1)"
    unfolding y_def using xpos by (simp add: field_simps)
  have e: "binade x = - int k"
    using False by (simp add: binade_def y_def n_def k_def)
  have p1: "(2::real) powi (- int k) = 1 / 2 ^ k"
    by (simp add: power_int_def field_simps)
  have p2: "(2::real) powi (- int k + 1) = 1 / 2 ^ (k - 1)"
  proof -
    from k1 obtain j where j: "k = Suc j" by (cases k) auto
    show ?thesis unfolding j by (simp add: power_int_def field_simps)
  qed
  from a c show ?thesis unfolding e p1 p2 by simp
qed

lemma star_Sym_elems:
  "(gs', t) \<in> set (star (rmatch (Sym p)) n (gs, s)) \<Longrightarrow> \<exists>w. s = w @ t \<and> (\<forall>c\<in>set w. p c)"
proof (induction n arbitrary: s)
  case 0
  then show ?case by simp
next
  case (Suc n)
  show ?case
  proof (cases "(gs', t) = (gs, s)")
    case True
    then show ?thesis by simp
  next
    case False
    with Suc.prems obtain st1 where 1: "st1 \<in> set (rmatch (Sym p) (gs, s))"
      and 2: "(gs', t) \<in> set (star (rmatch (Sym p)) n st1)" by auto
    from 1 obtain c s1 where s: "s = c # s1" and pc: "p c" and st1: "st1 = (gs, s1)"
      by (cases s) (auto split: if_splits)
    from Suc.IH [OF 2 [unfolded st1]] obtain w where "s1 = w @ t" "\<forall>c\<in>set w. p c" by blast
    with s pc have "s = (c # w) @ t \<and> (\<forall>c\<in>set (c # w). p c)" by simp
    then show ?thesis by blast
  qed
qed

lemma Plus_Sym_elems:
  assumes "(gs', t) \<in> set (rmatch (Plus (Sym p)) (gs, s))"
  shows "\<exists>w. s = w @ t \<and> w \<noteq> [] \<and> (\<forall>c\<in>set w. p c)"
proof -
  from assms obtain c s1 where s: "s = c # s1" and pc: "p c"
    and 2: "(gs', t) \<in> set (star (rmatch (Sym p)) (length s1) (gs, s1))"
    by (cases s) (auto split: if_splits)
  from star_Sym_elems [OF 2] obtain w where "s1 = w @ t" "\<forall>c\<in>set w. p c" by blast
  with s pc have "s = (c # w) @ t \<and> c # w \<noteq> [] \<and> (\<forall>c\<in>set (c # w). p c)" by simp
  then show ?thesis by blast
qed

lemma dot_not_digit: "\<not> is_digit CHR ''.''"
  by (simp add: is_digit_def)

lemma py_float_int:
  assumes "ip \<noteq> []" and "\<forall>c\<in>set ip. is_digit c"
  shows "py_float ip = Some (numeric_value ip)"
proof -
  from assms(2) have tw: "takeWhile is_digit ip = ip" and dw: "dropWhile is_digit ip = []"
    by simp_all
  show ?thesis
    unfolding py_float_def numeric_value_def decimal_value_def Let_def tw dw
    using assms(1) by (simp add: py_int_def)
qed

lemma py_float_frac:
  assumes "ip \<noteq> []" and "\<forall>c\<in>set ip. is_digit c" and "fp \<noteq> []" and "\<forall>c\<in>set fp. is_digit c"
  shows "py_float (ip @ CHR ''.'' # fp) = Some (numeric_value (ip @ CHR ''.'' # fp))"
proof -
  from assms(2) dot_not_digit have t: "takeWhile is_digit (ip @ CHR ''.'' # fp) = ip"
    by (simp add: takeWhile_append2)
  from assms(2) dot_not_digit have d: "dropWhile is_digit (ip @ CHR ''.'' # fp) = CHR ''.'' # fp"
    by (simp add: dropWhile_append2)
  from assms(4) have l: "list_all is_digit fp" by (simp add: list_all_iff)
  show ?thesis
    unfolding py_float_def numeric_value_def decimal_value_def Let_def t d
    using assms(1,3) l by simp
qed

lemma rmatch_Seq_elems:
  "x \<in> set (rmatch (Seq a b) st) \<Longrightarrow> \<exists>st1\<in>set (rmatch a st). x \<in> set (rmatch b st1)"
  by auto

lemma rmatch_Opt_elems:
  "x \<in> set (rmatch (Opt a) st) \<Longrightarrow> x = st \<or> x \<in> set (rmatch a st)"
  by auto

lemma number_rx_elems:
  assumes "(gs', t) \<in> set (rmatch number_rx (gs, s))"
  shows "\<exists>w. s = w @ t \<and> py_float w = Some (numeric_value w)"
proof -
  let ?D = "Plus (Sym is_digit)"
  from assms have "(gs', t) \<in> set (rmatch (Seq ?D (Opt (Seq (Chr (CHR ''.'')) ?D))) (gs, s))"
    by (simp only: number_rx_def)
  from rmatch_Seq_elems [OF this] obtain st1 where 1: "st1 \<in> set (rmatch ?D (gs, s))"
    and 2: "(gs', t) \<in> set (rmatch (Opt (Seq (Chr (CHR ''.'')) ?D)) st1)"
    by blast
  obtain g1 s1 where st1: "st1 = (g1, s1)" by (cases st1)
  from Plus_Sym_elems [OF 1 [unfolded st1]] obtain ip where ip: "s = ip @ s1" "ip \<noteq> []"
    "\<forall>c\<in>set ip. is_digit c" by blast
  from rmatch_Opt_elems [OF 2]
  have "(gs', t) = st1 \<or> (gs', t) \<in> set (rmatch (Seq (Chr (CHR ''.'')) ?D) st1)" .
  then show ?thesis
  proof
    assume "(gs', t) = st1"
    with st1 ip have "s = ip @ t" by simp
    with py_float_int [OF ip(2,3)] show ?thesis by blast
  next
    assume "(gs', t) \<in> set (rmatch (Seq (Chr (CHR ''.'')) ?D) st1)"
    from rmatch_Seq_elems [OF this] obtain st2 where a: "st2 \<in> set (rmatch (Chr (CHR ''.'')) (g1, s1))"
      and b: "(gs', t) \<in> set (rmatch ?D st2)"
      unfolding st1 by blast
    from a obtain s2 where s1: "s1 = CHR ''.'' # s2" and st2: "st2 = (g1, s2)"
      by (cases s1) (auto simp: Chr_def split: if_splits)
    from Plus_Sym_elems [OF b [unfolded st2]] obtain fp where fp: "s2 = fp @ t" "fp \<noteq> []"
      "\<forall>c\<in>set fp. is_digit c" by blast
    from ip(1) s1 fp(1) have "s = (ip @ CHR ''.'' # fp) @ t" by simp
    with py_float_frac [OF ip(2,3) fp(2,3)] show ?thesis by blast
  qed
qed

lemma nogrp_number_rx: "nogrp number_rx"
  by (simp add: number_rx_def Chr_def)

lemma findall_from_Nil_elems:
  "(m, gs) \<in> set (findall_from r k []) \<Longrightarrow> \<exists>t rest. rmatch r ([], []) = (gs, t) # rest"
  by (cases "rmatch r ([], [])"; cases "k = 0"; fastforce)

lemma findall_from_sound:
  "(m, gs) \<in> set (findall_from r k s) \<Longrightarrow> \<exists>s' t rest. rmatch r ([], s') = (gs, t) # rest"
proof (induction r k s rule: findall_from.induct)
  case (1 r k)
  from findall_from_Nil_elems [OF "1.prems"] show ?case by blast
next
  case (2 r k c s)
  then show ?case by simp
next
  case (3 r c s)
  show ?case
  proof (cases "rmatch r ([], c # s)")
    case Nil
    with 3 show ?thesis by simp
  next
    case (Cons y ys)
    obtain g1 t1 where y: "y = (g1, t1)" by (cases y)
    from "3.prems" Cons y have
      "(m, gs) = (take (length (c # s) - length t1) (c # s), g1) \<or>
       (m, gs) \<in> set (findall_from r (length (take (length (c # s) - length t1) (c # s)) - 1) s)"
      by (simp add: Let_def)
    then show ?thesis
    proof
      assume "(m, gs) = (take (length (c # s) - length t1) (c # s), g1)"
      with Cons y have "rmatch r ([], c # s) = (gs, t1) # ys" by simp
      then show ?thesis by blast
    next
      assume "(m, gs) \<in> set (findall_from r (length (take (length (c # s) - length t1) (c # s)) - 1) s)"
      with "3.IH"(2) [OF Cons y [symmetric] refl] show ?thesis by blast
    qed
  qed
qed

lemma nogrp_regex_explicit_tail:
  "nogrp (Seq (Opt (Chr (CHR ''+'')))
    (Seq (Star (Sym is_space))
    (Seq (Alt (Seq (ILit ''year'') (Opt (IChr (CHR ''s''))))
              (Seq (ILit ''yr'') (Opt (IChr (CHR ''s'')))))
    (Seq (Star (Sym is_space))
         (Opt (Alt (Seq (ILit ''of'') (Seq (Star (Sym is_space)) (ILit ''experience'')))
                   (ILit ''exp'')))))))"
  by (simp add: Chr_def IChr_def)

lemma regex_explicit_group:
  assumes "rmatch regex_explicit ([], s) = (gs, t) # rest"
  shows "\<exists>w. gs = [w] \<and> py_float w = Some (numeric_value w)"
proof -
  let ?T = "Seq (Opt (Chr (CHR ''+'')))
    (Seq (Star (Sym is_space))
    (Seq (Alt (Seq (ILit ''year'') (Opt (IChr (CHR ''s''))))
              (Seq (ILit ''yr'') (Opt (IChr (CHR ''s'')))))
    (Seq (Star (Sym is_space))
         (Opt (Alt (Seq (ILit ''of'') (Seq (Star (Sym is_space)) (ILit ''experience'')))
                   (ILit ''exp''))))))"
  from assms have "(gs, t) \<in> set (rmatch (Seq (Grp number_rx) ?T) ([], s))"
    by (simp only: regex_explicit_def list.set_intros)
  from rmatch_Seq_elems [OF this] obtain st1 where 1: "st1 \<in> set (rmatch (Grp number_rx) ([], s))"
    and 2: "(gs, t) \<in> set (rmatch ?T st1)" by blast
  obtain g1 s1 where st1: "st1 = (g1, s1)" by (cases st1)
  from rmatch_preserves [OF 2 [unfolded st1]] nogrp_regex_explicit_tail have gs: "gs = g1"
    by blast
  from 1 st1 obtain g0 where 3: "(g0, s1) \<in> set (rmatch number_rx ([], s))"
    and g1: "g1 = g0 @ [take (length s - length s1) s]" by auto
  from rmatch_preserves [OF 3] nogrp_number_rx have g0: "g0 = []" by blast
  from number_rx_elems [OF 3] obtain w where w: "s = w @ s1" "py_float w = Some (numeric_value w)"
    by blast
  from w(1) have "take (length s - length s1) s = w" by simp
  with gs g1 g0 w(2) show ?thesis by simp
qed

lemma explicit_matches_float:
  assumes "g \<in> set (explicit_matches txt)"
  shows "py_float g = Some (numeric_value g)"
proof -
  from assms obtain m gs where mg: "(m, gs) \<in> set (findall_from regex_explicit 0 txt)"
    and g: "g = group 1 gs"
    unfolding explicit_matches_def findall_def by auto
  from findall_from_sound [OF mg] obtain s' t rest where
    "rmatch regex_explicit ([], s') = (gs, t) # rest" by blast
  from regex_explicit_group [OF this] obtain w where "gs = [w]" "py_float w = Some (numeric_value w)"
    by blast
  with g show ?thesis by (simp add: group_def)
qed

lemma py_max_Max: "xs \<noteq> [] \<Longrightarrow> py_max xs = Some (Max (set xs))"
  by (cases xs) (simp_all add: Max.set_eq_fold [symmetric])

lemma explicit_tier_eq:
  "explicit_tier (explicit_matches txt) =
     (if explicit_matches txt = [] then None
      else Some (py_round1 (Max (set (map numeric_value (explicit_matches txt))))))"
proof (cases "explicit_matches txt = []")
  case True
  then show ?thesis by (simp add: explicit_tier_def)
next
  case False
  have a: "list_all (\<lambda>m. py_float m \<noteq> None) (explicit_matches txt)"
    using explicit_matches_float by (simp add: list_all_iff)
  have b: "map (\<lambda>m. the (py_float m)) (explicit_matches txt) = map numeric_value (explicit_matches txt)"
    using explicit_matches_float by simp
  from False have "map numeric_value (explicit_matches txt) \<noteq> []" by simp
  from py_max_Max [OF this]
  have c: "py_max (map (\<lambda>m. the (py_float m)) (explicit_matches txt))
      = Some (Max (set (map numeric_value (explicit_matches txt))))"
    by (simp only: b)
  show ?thesis
    unfolding explicit_tier_def c using False a by simp
qed

lemma parse_intervals_eq: "parse_intervals parse now ranges = parsed_ranges parse now ranges"
  unfolding parsed_ranges_def
  by (induction parse now ranges rule: parse_intervals.induct)
     (simp_all add: List.map_filter_simps split: option.splits)

lemma merge_loop_eq:
  "acc \<noteq> [] \<Longrightarrow> merge_loop acc ivs = Inr (butlast acc @ merge_running (last acc) ivs)"
proof (induction ivs arbitrary: acc)
  case Nil
  then show ?case by simp
next
  case (Cons iv ivs)
  let ?i = "length acc - 1"
  from Cons.prems have l: "acc ! ?i = last acc" by (simp add: last_conv_nth)
  from Cons.prems have u: "\<And>v. acc[?i := v] = butlast acc @ [v]"
    by (metis append_butlast_last_id length_butlast list_update_length)
  show ?case
  proof (cases "fst iv \<le> snd (last acc)")
    case True
    have "merge_loop (butlast acc @ [(fst (last acc), max (snd (last acc)) (snd iv))]) ivs
        = Inr (butlast acc @ merge_running (fst (last acc), max (snd (last acc)) (snd iv)) ivs)"
      using Cons.IH [of "butlast acc @ [(fst (last acc), max (snd (last acc)) (snd iv))]"] by simp
    with True Cons.prems l u show ?thesis by (simp add: Let_def)
  next
    case False
    have "merge_loop (acc @ [iv]) ivs = Inr (acc @ merge_running iv ivs)"
      using Cons.IH [of "acc @ [iv]"] by simp
    moreover from Cons.prems have "acc = butlast acc @ [last acc]" by simp
    ultimately have "merge_loop (acc @ [iv]) ivs = Inr (butlast acc @ last acc # merge_running iv ivs)"
      by (metis append.assoc append_Cons append_Nil)
    with False Cons.prems l show ?thesis by (simp add: Let_def)
  qed
qed

lemma extract_years_experience_eq:
  "extract_years_experience parse now txt = Inr (two_tier_reference parse now txt)"
proof (cases "explicit_matches txt = []")
  case False
  with explicit_tier_eq [of "txt"] have et: "explicit_tier (explicit_matches txt)
      = Some (py_round1 (Max (set (map numeric_value (explicit_matches txt)))))" by simp
  show ?thesis
    unfolding extract_years_experience_def two_tier_reference_def et
    using False by simp
next
  case True
  with explicit_tier_eq [of "txt"] have et: "explicit_tier (explicit_matches txt) = None" by simp
  let ?ivs = "parsed_ranges parse now (date_matches txt)"
  show ?thesis
  proof (cases "sort_key fst ?ivs")
    case Nil
    then have "?ivs = []" by (metis length_0_conv length_sort)
    then show ?thesis
      unfolding extract_years_experience_def two_tier_reference_def et parse_intervals_eq
      using True by simp
  next
    case (Cons first others)
    then have ne: "?ivs \<noteq> []" by auto
    have ml: "merge_loop [first] others = Inr (merge_running first others)"
      using merge_loop_eq [of "[first]" others] by simp
    show ?thesis
      unfolding extract_years_experience_def two_tier_reference_def et parse_intervals_eq
      using True ne by (simp add: Cons ml)
  qed
qed

text \<open>
  C4. For every input text, \<open>extract_years_experience\<close> returns what the two-tier
  reference definition returns: when the pattern for explicit years matches at least
  once, the maximum of the matched numbers rounded to one decimal place; otherwise the
  date ranges are parsed, the intervals sorted by start, each interval whose start is not
  after the end of the running merged interval is merged into it (the later end is kept),
  and the day spans of the merged intervals are summed, divided by 365.25 and rounded to
  one decimal place; with no explicit match and no parsed interval the result is unknown.
  The numbers are floats and the rounding is that of \<^verbatim>\<open>round\<close> on floats. The text
  "5 years of experience" gives 5.0, a text with "3 years" and "7+ years" gives 7.0,
  "2.45 years" gives 2.5 and "0.35 years" gives 0.3.
\<close>

theorem extract_years_two_tier:
  "extract_years_experience parse now txt = Inr (two_tier_reference parse now txt)
   \<and> two_tier_reference parse now ''5 years of experience'' = Some (Finite 5)
   \<and> two_tier_reference parse now ''3 years at X, 7+ years total'' = Some (Finite 7)
   \<and> two_tier_reference parse now ''2.45 years'' = Some (to_double 2.5)
   \<and> two_tier_reference parse now ''0.35 years'' = Some (to_double 0.3)"
proof -
  have a: "two_tier_reference parse now ''5 years of experience'' = Some (Finite 5)"
    by code_simp
  have b: "two_tier_reference parse now ''3 years at X, 7+ years total'' = Some (Finite 7)"
    by code_simp
  have c: "two_tier_reference parse now ''2.45 years'' = Some (to_double 2.5)"
    by code_simp
  have d: "two_tier_reference parse now ''0.35 years'' = Some (to_double 0.3)"
    by code_simp
  from extract_years_experience_eq a b c d show ?thesis by blast
qed

theorem extract_years_two_tier_witness:
  "extract_years_experience (parse_month_year 4) example_now
     ''Jan 2019 - Jan 2020, Jun 2019 - Mar 2020, Jan 2021 - Present'' = Inr (Some (Finite 7))"
proof -
  have r: "two_tier_reference (parse_month_year 4) example_now
     ''Jan 2019 - Jan 2020, Jun 2019 - Mar 2020, Jan 2021 - Present'' = Some (Finite 7)"
    by code_simp
  from extract_years_two_tier
    [of "parse_month_year 4" example_now
        "''Jan 2019 - Jan 2020, Jun 2019 - Mar 2020, Jan 2021 - Present''"]
  show ?thesis unfolding r by blast
qed

text \<open>
  C5. The value returned would never be negative. A date range whose end precedes its
  start gives a negative day span, and the function returns it: the text
  "Jan 2020 - Jan 2019" gives -1.0.
\<close>

theorem extract_years_reversed_range:
  "extract_years_experience (parse_month_year 4) example_now ''Jan 2020 - Jan 2019''
     = Inr (Some (Finite (- 1)))"
  by code_simp

text \<open>
  C10. \<open>extract_years_experience\<close> raises on no input text, whatever the date parser
  does on the bounds: it always returns a value. A date range with a bound that fails to
  parse is skipped and the ranges after it are still read. With no explicit match and no
  parsed range the function returns unknown. In the text
  "Foo 2020 - Jan 2019, Jan 2019 - Mar 2019" the first range is skipped and the second
  gives 0.2.
\<close>

theorem extract_years_never_raises:
  "(\<exists>years. extract_years_experience parse now txt = Inr years)
   \<and> (parse start_str = None \<or> (\<not> sublist ''present'' (py_lower end_str) \<and> parse end_str = None)
        \<longrightarrow> parse_intervals parse now ((start_str, end_str) # rest) = parse_intervals parse now rest)
   \<and> (explicit_matches txt = [] \<and> parse_intervals parse now (date_matches txt) = []
        \<longrightarrow> extract_years_experience parse now txt = Inr None)
   \<and> extract_years_experience (parse_month_year 4) example_now
         ''Foo 2020 - Jan 2019, Jan 2019 - Mar 2019'' = Inr (Some (to_double 0.2))"
proof -
  have a: "\<exists>years. extract_years_experience parse now txt = Inr years"
    using extract_years_experience_eq by blast
  have b: "parse start_str = None \<or> (\<not> sublist ''present'' (py_lower end_str) \<and> parse end_str = None)
        \<longrightarrow> parse_intervals parse now ((start_str, end_str) # rest) = parse_intervals parse now rest"
    by (auto split: option.splits)
  have c: "explicit_matches txt = [] \<and> parse_intervals parse now (date_matches txt) = []
        \<longrightarrow> extract_years_experience parse now txt = Inr None"
    by (simp add: extract_years_experience_def explicit_tier_def)
  have d: "extract_years_experience (parse_month_year 4) example_now
         ''Foo 2020 - Jan 2019, Jan 2019 - Mar 2019'' = Inr (Some (to_double 0.2))"
    by code_simp
  from a b c d show ?thesis by blast
qed

theorem extract_years_never_raises_witness:
  "extract_years_experience (parse_month_year 4) example_now ''Foo 2020 - Bar 2019'' = Inr None"
proof -
  have e: "explicit_matches ''Foo 2020 - Bar 2019'' = []"
    by code_simp
  have d: "date_matches ''Foo 2020 - Bar 2019'' = [(''Foo 2020'', ''Bar 2019'')]"
    by code_simp
  have p: "parse_month_year 4 ''Foo 2020'' = None"
    by code_simp
  have i: "parse_intervals (parse_month_year 4) example_now
      (date_matches ''Foo 2020 - Bar 2019'') = []"
    unfolding d by (simp add: p)
  from extract_years_never_raises
    [of "parse_month_year 4" example_now "''Foo 2020 - Bar 2019''" "''Foo 2020''" "''Bar 2019''" "[]"]
    e i
  show ?thesis by blast
qed

end
